theory Spec2Isabelle
  imports Complex_Main
begin

section \<open>JavaScript values used by the program\<close>

text \<open>
  Strings are lists of code units; every \<^typ>\<open>char\<close> stands for one code unit in the
  range 0 to 255, and \<^const>\<open>length\<close> is the \<^verbatim>\<open>.length\<close> of the source.

  A Number is \<^verbatim>\<open>NaN\<close>, one of the two infinities, zero, or a finite non-zero value. A finite
  non-zero value is given by the decimal that \<^verbatim>\<open>Number.prototype.toString\<close> prints for it:
  a sign, the digits \<open>s\<close> (a positive integer, not divisible by ten in the canonical form)
  and the decimal exponent \<open>n\<close>, the value being \<open>s * 10 ^ (n - k)\<close> for \<open>k\<close> the number of
  digits of \<open>s\<close>. Different Numbers print different decimals and the printed decimal of a
  smaller Number is smaller, so comparing the decimals is comparing the Numbers.
\<close>

datatype number = NaN | PosInfinity | NegInfinity | Zero | Dec bool nat int

fun digits :: "nat \<Rightarrow> string" where
  "digits m = (if m < 10 then [''0123456789'' ! m]
               else digits (m div 10) @ [''0123456789'' ! (m mod 10)])"

declare digits.simps [simp del]

definition exponent_part :: "int \<Rightarrow> string" where
  "exponent_part n =
     CHR ''e'' # (if 0 < n - 1 then CHR ''+'' else CHR ''-'') # digits (nat \<bar>n - 1\<bar>)"

definition positive_toString :: "nat \<Rightarrow> int \<Rightarrow> string" where
  "positive_toString s n =
     (let ds = digits s; k = int (length ds) in
      if k \<le> n \<and> n \<le> 21 then ds @ replicate (nat (n - k)) (CHR ''0'')
      else if 0 < n \<and> n \<le> 21 then take (nat n) ds @ ''.'' @ drop (nat n) ds
      else if - 6 < n \<and> n \<le> 0 then ''0.'' @ replicate (nat (- n)) (CHR ''0'') @ ds
      else if k = 1 then ds @ exponent_part n
      else take 1 ds @ ''.'' @ drop 1 ds @ exponent_part n)"

fun number_toString :: "number \<Rightarrow> string" where
  "number_toString NaN = ''NaN''"
| "number_toString Zero = ''0''"
| "number_toString PosInfinity = ''Infinity''"
| "number_toString NegInfinity = ''-Infinity''"
| "number_toString (Dec neg s n) = (if neg then ''-'' else []) @ positive_toString s n"

fun number_val :: "number \<Rightarrow> rat" where
  "number_val (Dec neg s n) =
     (if neg then - 1 else 1) * of_nat s * 10 powi (n - int (length (digits s)))"
| "number_val _ = 0"

text \<open>
  \<open>number_le x y\<close> is the source's \<^verbatim>\<open>x <= y\<close> and \<^verbatim>\<open>y >= x\<close> on Numbers:
  false as soon as one side is \<^verbatim>\<open>NaN\<close>.
\<close>

fun number_le :: "number \<Rightarrow> number \<Rightarrow> bool" where
  "number_le NaN _ = False"
| "number_le _ NaN = False"
| "number_le NegInfinity _ = True"
| "number_le _ PosInfinity = True"
| "number_le PosInfinity _ = False"
| "number_le _ NegInfinity = False"
| "number_le x y = (number_val x \<le> number_val y)"

text \<open>The Number that a length is, for the comparison of a length with a bound.\<close>

definition number_of_nat :: "nat \<Rightarrow> number" where
  "number_of_nat m = (if m = 0 then Zero else Dec False m (int (length (digits m))))"

text \<open>
  \<^verbatim>\<open>String.prototype.trim\<close> removes white space and line terminators from both ends; among
  the code units up to 255 these are tab, line feed, vertical tab, form feed, carriage
  return, space and no-break space.
\<close>

definition isWhiteSpace :: "char \<Rightarrow> bool" where
  "isWhiteSpace c = (of_char c \<in> {9, 10, 11, 12, 13, 32, 160 :: nat})"

definition trim :: "string \<Rightarrow> string" where
  "trim s = rev (dropWhile isWhiteSpace (rev (dropWhile isWhiteSpace s)))"

datatype js_value = Str string | Num number

fun toString :: "js_value \<Rightarrow> string" where
  "toString (Str s) = s"
| "toString (Num x) = number_toString x"


section \<open>The project model\<close>

text \<open>
  Modelled from the spec: the class \<^verbatim>\<open>Project\<close> and the enum \<^verbatim>\<open>ProjectStatus\<close> of
  \<^verbatim>\<open>models/project.ts\<close>, which the sources use and do not contain. The fields are those
  the sources read (\<^verbatim>\<open>id\<close>, \<^verbatim>\<open>title\<close>, \<^verbatim>\<open>description\<close>, \<^verbatim>\<open>people\<close>, \<^verbatim>\<open>status\<close>), in the order of
  the constructor call in \<^verbatim>\<open>addProject\<close>.
\<close>

datatype ProjectStatus = Active | Finished

record Project =
  id' :: string
  title :: string
  description :: string
  people :: number
  status :: ProjectStatus


section \<open>The project registry\<close>

text \<open>
  \<^verbatim>\<open>ProjectState\<close> holds the listeners and the projects. A listener is a callback the
  registry only calls; it is represented by its identity \<open>'l\<close>, and the calls the registry
  makes are recorded, oldest first, in \<open>calls\<close>: the listener called and the sequence of
  projects it was handed. Listeners are taken to return normally and to leave the projects
  they are handed as they are; what a listener can do to what it is handed is the subject
  of the store of the last section.
\<close>

record 'l ProjectState =
  listeners :: "'l list"
  projects :: "Project list"
  calls :: "('l \<times> Project list) list"

text \<open>The instance that \<^verbatim>\<open>getInstance\<close> creates on its first call.\<close>

definition getInstance :: "'l ProjectState" where
  "getInstance = \<lparr>listeners = [], projects = [], calls = []\<rparr>"

definition addListener :: "'l \<Rightarrow> 'l ProjectState \<Rightarrow> 'l ProjectState" where
  "addListener fn s = s\<lparr>listeners := listeners s @ [fn]\<rparr>"

text \<open>The loop of \<^verbatim>\<open>updateListeners\<close> over the listeners still to be called.\<close>

fun notify :: "'l list \<Rightarrow> 'l ProjectState \<Rightarrow> 'l ProjectState" where
  "notify [] s = s"
| "notify (listenerFn # rest) s = notify rest (s\<lparr>calls := calls s @ [(listenerFn, projects s)]\<rparr>)"

definition updateListeners :: "'l ProjectState \<Rightarrow> 'l ProjectState" where
  "updateListeners s = notify (listeners s) s"

text \<open>
  \<^verbatim>\<open>addProject\<close>; \<open>rnd\<close> is the string \<^verbatim>\<open>Math.random().toString()\<close> evaluates to in this
  call, which the environment chooses.
\<close>

definition addProject ::
  "string \<Rightarrow> string \<Rightarrow> string \<Rightarrow> number \<Rightarrow> 'l ProjectState \<Rightarrow> 'l ProjectState" where
  "addProject rnd title' description' numOfPeople s =
     (let newProject = \<lparr>id' = rnd, title = title', description = description',
                         people = numOfPeople, status = Active\<rparr>
      in updateListeners (s\<lparr>projects := projects s @ [newProject]\<rparr>))"

text \<open>
  The assignment \<^verbatim>\<open>project.status = newStatus\<close> to the object that \<^verbatim>\<open>find\<close> returned: the
  first element of the array with the given id.
\<close>

fun set_status :: "string \<Rightarrow> ProjectStatus \<Rightarrow> Project list \<Rightarrow> Project list" where
  "set_status projectId newStatus [] = []"
| "set_status projectId newStatus (p # ps) =
     (if id' p = projectId then p\<lparr>status := newStatus\<rparr> # ps
      else p # set_status projectId newStatus ps)"

definition moveProject :: "string \<Rightarrow> ProjectStatus \<Rightarrow> 'l ProjectState \<Rightarrow> 'l ProjectState" where
  "moveProject projectId newStatus s =
     (case find (\<lambda>project. id' project = projectId) (projects s) of
        None \<Rightarrow> s
      | Some project \<Rightarrow>
          if status project \<noteq> newStatus
          then updateListeners (s\<lparr>projects := set_status projectId newStatus (projects s)\<rparr>)
          else s)"

text \<open>The object \<^verbatim>\<open>new Project(...)\<close> that a call of \<^verbatim>\<open>addProject\<close> constructs.\<close>

definition project_of :: "string \<times> string \<times> string \<times> number \<Rightarrow> Project" where
  "project_of c =
     (case c of (rnd, t, d, n) \<Rightarrow>
        \<lparr>id' = rnd, title = t, description = d, people = n, status = Active\<rparr>)"

text \<open>A sequence of \<^verbatim>\<open>addProject\<close> calls, each with its random string and its arguments.\<close>

fun addProjects ::
  "(string \<times> string \<times> string \<times> number) list \<Rightarrow> 'l ProjectState \<Rightarrow> 'l ProjectState" where
  "addProjects [] s = s"
| "addProjects ((rnd, t, d, n) # cs) s = addProjects cs (addProject rnd t d n s)"


section \<open>Field validation\<close>

text \<open>
  The descriptor \<^verbatim>\<open>Validatable\<close>: \<^verbatim>\<open>value\<close> is a string or a Number, every other key is
  optional (\<open>None\<close> when the key is absent, \<^verbatim>\<open>undefined\<close> or \<^verbatim>\<open>null\<close>).
\<close>

record Validatable =
  value' :: js_value
  required :: "bool option"
  minLength :: "number option"
  maxLength :: "number option"
  min' :: "number option"
  max' :: "number option"

definition validate :: "Validatable \<Rightarrow> bool" where
  "validate validatableInput =
     (let isValid = True;
          isValid =
            (if required validatableInput = Some True
             then isValid \<and> length (trim (toString (value' validatableInput))) \<noteq> 0
             else isValid);
          isValid =
            (case (minLength validatableInput, value' validatableInput) of
               (Some m, Str s) \<Rightarrow> isValid \<and> number_le m (number_of_nat (length s))
             | _ \<Rightarrow> isValid);
          isValid =
            (case (maxLength validatableInput, value' validatableInput) of
               (Some m, Str s) \<Rightarrow> isValid \<and> number_le (number_of_nat (length s)) m
             | _ \<Rightarrow> isValid);
          isValid =
            (case (min' validatableInput, value' validatableInput) of
               (Some m, Num x) \<Rightarrow> isValid \<and> number_le m x
             | _ \<Rightarrow> isValid);
          isValid =
            (case (max' validatableInput, value' validatableInput) of
               (Some m, Num x) \<Rightarrow> isValid \<and> number_le x m
             | _ \<Rightarrow> isValid)
      in isValid)"


section \<open>Drag events and the two views\<close>

text \<open>
  The part of the browser's \<^verbatim>\<open>DragEvent\<close> and \<^verbatim>\<open>DataTransfer\<close> the handlers touch: the
  declared types in the order they were added, the data stored per type, the allowed effect,
  and whether the default action was prevented. \<^verbatim>\<open>dataTransfer\<close> is \<open>None\<close> for \<^verbatim>\<open>null\<close>.
\<close>

record DataTransfer =
  types :: "string list"
  data :: "string \<rightharpoonup> string"
  effectAllowed :: string

record DragEvent =
  dataTransfer :: "DataTransfer option"
  defaultPrevented :: bool

datatype error = TypeError

definition setData :: "string \<Rightarrow> string \<Rightarrow> DataTransfer \<Rightarrow> DataTransfer" where
  "setData format v dt =
     dt\<lparr>types := filter (\<lambda>t. t \<noteq> format) (types dt) @ [format],
        data := (data dt)(format \<mapsto> v)\<rparr>"

definition getData :: "string \<Rightarrow> DataTransfer \<Rightarrow> string" where
  "getData format dt = (case data dt format of None \<Rightarrow> [] | Some v \<Rightarrow> v)"

text \<open>
  \<^verbatim>\<open>ProjectItem.dragStartHandler\<close>. The source writes \<^verbatim>\<open>event.dataTransfer!\<close>, which compiles
  to a plain property access: on \<^verbatim>\<open>null\<close> the access throws before anything is written.
\<close>

definition dragStartHandler :: "Project \<Rightarrow> DragEvent \<Rightarrow> error + DragEvent" where
  "dragStartHandler project event =
     (case dataTransfer event of
        None \<Rightarrow> Inl TypeError
      | Some dt \<Rightarrow>
          Inr (event\<lparr>dataTransfer :=
                 Some ((setData ''text/plain'' (id' project) dt)\<lparr>effectAllowed := ''move''\<rparr>)\<rparr>))"

definition dragEndHandler :: "DragEvent \<Rightarrow> DragEvent" where
  "dragEndHandler event = event"

text \<open>
  A \<^verbatim>\<open>ProjectList\<close>: the list it was constructed for and the class list of the \<^verbatim>\<open>ul\<close>
  element of its template, which the constructor has already written to
  (\<^verbatim>\<open>renderContent\<close>), so the element exists in every constructed view.
\<close>

datatype ListType = active | finished

record ProjectList =
  type :: ListType
  assignedProjects :: "Project list"
  ul_classList :: "string list"

definition classList_add :: "string \<Rightarrow> string list \<Rightarrow> string list" where
  "classList_add token cs = (if token \<in> set cs then cs else cs @ [token])"

definition classList_remove :: "string \<Rightarrow> string list \<Rightarrow> string list" where
  "classList_remove token cs = filter (\<lambda>c. c \<noteq> token) cs"

definition dragOverHandler :: "DragEvent \<Rightarrow> ProjectList \<Rightarrow> DragEvent \<times> ProjectList" where
  "dragOverHandler event this =
     (case dataTransfer event of
        None \<Rightarrow> (event, this)
      | Some dt \<Rightarrow>
          (case types dt of
             [] \<Rightarrow> (event, this)
           | t # _ \<Rightarrow>
               if t = ''text/plain''
               then (event\<lparr>defaultPrevented := True\<rparr>,
                     this\<lparr>ul_classList := classList_add ''droppable'' (ul_classList this)\<rparr>)
               else (event, this)))"

text \<open>
  The declared type of the payload of a drag event, as the handler reads it: the first entry
  of \<^verbatim>\<open>event.dataTransfer.types\<close>, if there is a transfer channel and it declares a type.
\<close>

definition declared_type :: "DragEvent \<Rightarrow> string option" where
  "declared_type event =
     (case dataTransfer event of
        None \<Rightarrow> None
      | Some dt \<Rightarrow> (case types dt of [] \<Rightarrow> None | t # _ \<Rightarrow> Some t))"

definition dragLeaveHandler :: "ProjectList \<Rightarrow> ProjectList" where
  "dragLeaveHandler this = this\<lparr>ul_classList := classList_remove ''droppable'' (ul_classList this)\<rparr>"

definition dropHandler ::
  "DragEvent \<Rightarrow> ProjectList \<Rightarrow> 'l ProjectState \<Rightarrow> error + 'l ProjectState" where
  "dropHandler event this s =
     (case dataTransfer event of
        None \<Rightarrow> Inl TypeError
      | Some dt \<Rightarrow>
          (let projectId = getData ''text/plain'' dt;
               projectStatus = (if type this = active then Active else Finished)
           in Inr (moveProject projectId projectStatus s)))"


section \<open>The arrays handed to the listeners\<close>

text \<open>
  For what the listeners may do to what they are handed, arrays and objects live in a store:
  an address of \<open>arrays\<close> holds the elements of an array, which are references to \<^verbatim>\<open>Project\<close>
  objects, \<open>objects\<close> holds the objects, and \<open>next_ref\<close> is the first address not yet in use.
  \<open>projects_ref\<close> is the address of \<^verbatim>\<open>this.projects\<close>. \<open>received\<close> records every call: the
  listener, the address of the array it was handed, the elements of that array and the
  projects the elements referred to when the array was handed over.
\<close>

type_synonym ref = nat

record 'l Store =
  arrays :: "ref \<Rightarrow> ref list"
  objects :: "ref \<rightharpoonup> Project"
  next_ref :: ref
  listeners_of :: "'l list"
  projects_ref :: ref
  received :: "('l \<times> ref \<times> ref list \<times> Project option list) list"

text \<open>\<^verbatim>\<open>Array.prototype.slice\<close> with no argument: a new array with the same elements.\<close>

definition slice :: "ref \<Rightarrow> 'l Store \<Rightarrow> ref \<times> 'l Store" where
  "slice a h = (next_ref h, h\<lparr>arrays := (arrays h)(next_ref h := arrays h a),
                               next_ref := Suc (next_ref h)\<rparr>)"

text \<open>
  A call of a listener: the call is recorded, and the listener may do what it likes to the
  array it was handed and to the objects it reaches through it. \<open>mut fn xs\<close> is what
  listener \<open>fn\<close> leaves in an array that held \<open>xs\<close>, and \<open>wr fn xs os\<close> is what it leaves of
  the objects \<open>os\<close>.
\<close>

definition call_listener ::
  "('l \<Rightarrow> ref list \<Rightarrow> ref list) \<Rightarrow> ('l \<Rightarrow> ref list \<Rightarrow> (ref \<rightharpoonup> Project) \<Rightarrow> (ref \<rightharpoonup> Project)) \<Rightarrow>
   'l \<Rightarrow> ref \<Rightarrow> 'l Store \<Rightarrow> 'l Store" where
  "call_listener mut wr fn r h =
     h\<lparr>received := received h @ [(fn, r, arrays h r, map (objects h) (arrays h r))],
       arrays := (arrays h)(r := mut fn (arrays h r)),
       objects := wr fn (arrays h r) (objects h)\<rparr>"

fun notify_store ::
  "('l \<Rightarrow> ref list \<Rightarrow> ref list) \<Rightarrow> ('l \<Rightarrow> ref list \<Rightarrow> (ref \<rightharpoonup> Project) \<Rightarrow> (ref \<rightharpoonup> Project)) \<Rightarrow>
   'l list \<Rightarrow> 'l Store \<Rightarrow> 'l Store" where
  "notify_store mut wr [] h = h"
| "notify_store mut wr (listenerFn # rest) h =
     (case slice (projects_ref h) h of
        (r, h') \<Rightarrow> notify_store mut wr rest (call_listener mut wr listenerFn r h'))"

text \<open>One iteration of that loop: the copy is made and handed to the listener.\<close>

definition hand_over ::
  "('l \<Rightarrow> ref list \<Rightarrow> ref list) \<Rightarrow> ('l \<Rightarrow> ref list \<Rightarrow> (ref \<rightharpoonup> Project) \<Rightarrow> (ref \<rightharpoonup> Project)) \<Rightarrow>
   'l \<Rightarrow> 'l Store \<Rightarrow> 'l Store" where
  "hand_over mut wr fn h =
     call_listener mut wr fn (fst (slice (projects_ref h) h)) (snd (slice (projects_ref h) h))"

definition updateListeners_store ::
  "('l \<Rightarrow> ref list \<Rightarrow> ref list) \<Rightarrow> ('l \<Rightarrow> ref list \<Rightarrow> (ref \<rightharpoonup> Project) \<Rightarrow> (ref \<rightharpoonup> Project)) \<Rightarrow>
   'l Store \<Rightarrow> 'l Store" where
  "updateListeners_store mut wr h = notify_store mut wr (listeners_of h) h"

text \<open>
  Two listeners for the examples: one that leaves its array as it is, and the body
  \<^verbatim>\<open>items[0].status = ProjectStatus.Finished\<close>, a write through the first element of the
  array.
\<close>

definition keep_array :: "'l \<Rightarrow> ref list \<Rightarrow> ref list" where
  "keep_array fn xs = xs"

definition finish_first :: "'l \<Rightarrow> ref list \<Rightarrow> (ref \<rightharpoonup> Project) \<Rightarrow> (ref \<rightharpoonup> Project)" where
  "finish_first fn xs os =
     (case xs of
        [] \<Rightarrow> os
      | r # _ \<Rightarrow> (case os r of None \<Rightarrow> os | Some p \<Rightarrow> os(r \<mapsto> p\<lparr>status := Finished\<rparr>)))"

definition keep_objects :: "'l \<Rightarrow> ref list \<Rightarrow> (ref \<rightharpoonup> Project) \<Rightarrow> (ref \<rightharpoonup> Project)" where
  "keep_objects fn xs os = os"


section \<open>Example data\<close>

abbreviation five :: number where "five \<equiv> Dec False 5 1"

abbreviation P1 :: Project where
  "P1 \<equiv> \<lparr>id' = ''0.1'', title = ''T'', description = ''a valid description'',
         people = five, status = Active\<rparr>"

abbreviation P2 :: Project where
  "P2 \<equiv> \<lparr>id' = ''0.7'', title = ''U'', description = ''another description'',
         people = Dec False 1 2, status = Active\<rparr>"

abbreviation P3 :: Project where
  "P3 \<equiv> \<lparr>id' = ''0.5'', title = ''U'', description = ''another description'',
         people = Dec False 1 2, status = Active\<rparr>"

abbreviation SD :: "nat ProjectState" where
  "SD \<equiv> moveProject ''0.5'' Finished
          (addProjects [(''0.5'', ''T'', ''a valid description'', five),
                        (''0.5'', ''U'', ''another description'', Dec False 1 2)]
             (addListener 1 getInstance))"

abbreviation S0 :: "nat ProjectState" where
  "S0 \<equiv> \<lparr>listeners = [1, 2], projects = [P1, P2], calls = []\<rparr>"

abbreviation H0 :: "nat Store" where
  "H0 \<equiv> \<lparr>arrays = (\<lambda>a. [])(0 := [1, 2]), objects = [1 \<mapsto> P1, 2 \<mapsto> P2], next_ref = 3,
         listeners_of = [1, 2], projects_ref = 0, received = []\<rparr>"

abbreviation E_text :: DragEvent where
  "E_text \<equiv> \<lparr>dataTransfer =
               Some \<lparr>types = [''text/plain''], data = [''text/plain'' \<mapsto> ''0.1''],
                     effectAllowed = ''move''\<rparr>,
             defaultPrevented = False\<rparr>"

abbreviation E_files :: DragEvent where
  "E_files \<equiv> \<lparr>dataTransfer =
                Some \<lparr>types = [''Files''], data = Map.empty, effectAllowed = ''all''\<rparr>,
              defaultPrevented = False\<rparr>"

abbreviation E_start :: DragEvent where
  "E_start \<equiv> \<lparr>dataTransfer =
                Some \<lparr>types = [], data = Map.empty, effectAllowed = ''uninitialized''\<rparr>,
              defaultPrevented = False\<rparr>"

abbreviation E_none :: DragEvent where
  "E_none \<equiv> \<lparr>dataTransfer = None, defaultPrevented = False\<rparr>"

abbreviation L_finished :: ProjectList where
  "L_finished \<equiv> \<lparr>type = finished, assignedProjects = [], ul_classList = []\<rparr>"


section \<open>The registry: adding projects\<close>

lemma notify_eq: "notify fns s = s\<lparr>calls := calls s @ map (\<lambda>fn. (fn, projects s)) fns\<rparr>"
  by (induction fns arbitrary: s) simp_all

lemma updateListeners_eq:
  "updateListeners s = s\<lparr>calls := calls s @ map (\<lambda>fn. (fn, projects s)) (listeners s)\<rparr>"
  by (simp add: updateListeners_def notify_eq)

lemma addProject_eq:
  "addProject rnd t d n s =
     s\<lparr>projects := projects s @ [project_of (rnd, t, d, n)],
       calls := calls s @
         map (\<lambda>fn. (fn, projects s @ [project_of (rnd, t, d, n)])) (listeners s)\<rparr>"
  by (simp add: addProject_def updateListeners_eq Let_def project_of_def)

text \<open>
  C2. Whatever the state, \<^verbatim>\<open>addProject\<close> appends one project, built from the arguments with
  status \<open>Active\<close>, behind the projects already stored, keeps the listeners, and then calls
  every registered listener once, in the order of registration, each with the whole
  sequence as it is after the append.
\<close>

theorem addProject_appends_and_notifies:
  "projects (addProject rnd t d n s) =
     projects s @ [\<lparr>id' = rnd, title = t, description = d, people = n, status = Active\<rparr>]
   \<and> listeners (addProject rnd t d n s) = listeners s
   \<and> calls (addProject rnd t d n s) =
       calls s @ map (\<lambda>fn. (fn, projects (addProject rnd t d n s))) (listeners s)"
  by (simp add: addProject_def updateListeners_eq Let_def)

lemma addProject_example:
  "projects (addProject ''0.1'' ''T'' ''a valid description'' five (addListener (1::nat) getInstance))
     = [P1]
   \<and> calls (addProject ''0.1'' ''T'' ''a valid description'' five (addListener (1::nat) getInstance))
     = [(1, [P1])]"
  by (simp add: addProject_eq project_of_def addListener_def getInstance_def)

lemma addProjects_append: "addProjects (cs @ ds) s = addProjects ds (addProjects cs s)"
  by (induction cs s rule: addProjects.induct) simp_all

lemma addProjects_listeners: "listeners (addProjects cs s) = listeners s"
  by (induction cs s rule: addProjects.induct) (simp_all add: addProject_eq)

lemma addProjects_projects: "projects (addProjects cs s) = projects s @ map project_of cs"
  by (induction cs s rule: addProjects.induct) (simp_all add: addProject_eq)

lemma id_project_of: "id' (project_of c) = fst c"
  by (cases c) (simp add: project_of_def)

lemma addProjects_ids: "map id' (projects (addProjects cs s)) = map id' (projects s) @ map fst cs"
  by (simp add: addProjects_projects id_project_of)

lemma addProjects_calls:
  "calls (addProjects cs s) =
     calls s @
     concat (map (\<lambda>k. map (\<lambda>fn. (fn, take (length (projects s) + k) (projects (addProjects cs s))))
                          (listeners s))
                 [1..<Suc (length cs)])"
proof (induction cs rule: rev_induct)
  case Nil
  then show ?case by simp
next
  case (snoc c cs)
  obtain rnd t d n where c: "c = (rnd, t, d, n)" by (cases c) auto
  let ?s1 = "addProjects cs s"
  have fin: "projects (addProjects (cs @ [c]) s) = projects ?s1 @ [project_of c]"
    by (simp add: addProjects_projects)
  have len: "length (projects ?s1) = length (projects s) + length cs"
    by (simp add: addProjects_projects)
  have old: "\<And>k. k \<in> set [1..<Suc (length cs)] \<Longrightarrow>
      take (length (projects s) + k) (projects (addProjects (cs @ [c]) s)) =
      take (length (projects s) + k) (projects ?s1)"
    by (auto simp add: fin len)
  have new: "take (length (projects s) + Suc (length cs)) (projects (addProjects (cs @ [c]) s)) =
      projects ?s1 @ [project_of c]"
    by (simp add: fin len)
  have step: "calls (addProjects (cs @ [c]) s) =
      calls ?s1 @ map (\<lambda>fn. (fn, projects ?s1 @ [project_of c])) (listeners s)"
    by (simp add: addProjects_append c addProject_eq addProjects_listeners)
  have "concat (map (\<lambda>k. map (\<lambda>fn. (fn, take (length (projects s) + k)
                                          (projects (addProjects (cs @ [c]) s)))) (listeners s))
                    [1..<Suc (length cs)]) =
        concat (map (\<lambda>k. map (\<lambda>fn. (fn, take (length (projects s) + k) (projects ?s1)))
                            (listeners s))
                    [1..<Suc (length cs)])"
    using old by (intro arg_cong[where f=concat] map_cong) simp_all
  then show ?case
    using snoc.IH step new by simp
qed

text \<open>
  C1, amended. Start from a registry that holds no project and make any sequence of
  \<^verbatim>\<open>addProject\<close> calls. The registry then holds as many projects as there were calls; the
  \<open>k\<close>-th call handed every listener the first \<open>k\<close> projects, a sequence of length \<open>k\<close>;
  and the ids of the projects are the random strings drawn by the calls, in the order of the
  calls. So the ids are pairwise distinct exactly when the strings drawn are, and then the
  ids in every snapshot are pairwise distinct as well.
\<close>

theorem addProjects_snapshots:
  assumes "projects s = []"
  shows "length (projects (addProjects cs s)) = length cs
       \<and> calls (addProjects cs s) =
           calls s @
           concat (map (\<lambda>k. map (\<lambda>fn. (fn, take k (projects (addProjects cs s)))) (listeners s))
                       [1..<Suc (length cs)])
       \<and> (\<forall>k\<in>set [1..<Suc (length cs)]. length (take k (projects (addProjects cs s))) = k)
       \<and> map id' (projects (addProjects cs s)) = map fst cs
       \<and> (distinct (map id' (projects (addProjects cs s))) = distinct (map fst cs))
       \<and> (distinct (map fst cs) \<longrightarrow>
            (\<forall>k. distinct (map id' (take k (projects (addProjects cs s))))))"
proof -
  have len: "length (projects (addProjects cs s)) = length cs"
    using assms by (simp add: addProjects_projects)
  have ids: "map id' (projects (addProjects cs s)) = map fst cs"
    using assms by (simp add: addProjects_ids)
  have c: "calls (addProjects cs s) =
           calls s @
           concat (map (\<lambda>k. map (\<lambda>fn. (fn, take k (projects (addProjects cs s)))) (listeners s))
                       [1..<Suc (length cs)])"
    using addProjects_calls[of cs s] assms by simp
  have d: "distinct (map fst cs) \<longrightarrow>
            (\<forall>k. distinct (map id' (take k (projects (addProjects cs s)))))"
    by (simp add: ids take_map[symmetric])
  show ?thesis
    using len c d by (auto simp: ids)
qed

theorem addProjects_snapshots_witness:
  "length (projects (addProjects [(''0.1'', ''T'', ''a valid description'', five),
                                   (''0.7'', ''U'', ''another description'', Dec False 1 2)]
                        (addListener (1::nat) getInstance))) = 2
   \<and> distinct (map id' (projects (addProjects [(''0.1'', ''T'', ''a valid description'', five),
                                   (''0.7'', ''U'', ''another description'', Dec False 1 2)]
                        (addListener (1::nat) getInstance))))"
proof -
  have h: "projects (addListener (1::nat) getInstance) = []"
    by (simp add: addListener_def getInstance_def)
  show ?thesis
    using addProjects_snapshots[OF h, of "[(''0.1'', ''T'', ''a valid description'', five),
                                   (''0.7'', ''U'', ''another description'', Dec False 1 2)]"]
    by simp
qed

text \<open>
  The claim as it stands fails when \<^verbatim>\<open>Math.random\<close> returns the same number twice: the
  snapshot of the second call then holds two projects with one id.
\<close>

theorem addProjects_ids_counterexample:
  "\<not> distinct (map id' (snd (last (calls
       (addProjects [(''0.5'', ''T'', ''a valid description'', five),
                     (''0.5'', ''U'', ''another description'', Dec False 1 2)]
          (addListener (1::nat) getInstance))))))"
  by (simp add: addProject_eq project_of_def addListener_def getInstance_def)


section \<open>The registry: moving a project\<close>

lemma find_first_match:
  "distinct (map id' ps) \<Longrightarrow> p \<in> set ps \<Longrightarrow> find (\<lambda>q. id' q = id' p) ps = Some p"
  by (induction ps) (auto simp: image_iff)

lemma set_status_map:
  "distinct (map id' ps) \<Longrightarrow>
   set_status pid st ps = map (\<lambda>q. if id' q = pid then q\<lparr>status := st\<rparr> else q) ps"
proof (induction ps)
  case Nil
  then show ?case by simp
next
  case (Cons p ps)
  show ?case
  proof (cases "id' p = pid")
    case True
    with Cons.prems have "\<forall>q\<in>set ps. id' q \<noteq> pid" by (auto simp: image_iff)
    then have "map (\<lambda>q. if id' q = pid then q\<lparr>status := st\<rparr> else q) ps = ps"
      by (simp add: map_idI)
    with True show ?thesis by simp
  next
    case False
    with Cons show ?thesis by simp
  qed
qed

lemma set_status_length: "length (set_status pid st ps) = length ps"
  by (induction ps) simp_all

lemma set_status_ids: "map id' (set_status pid st ps) = map id' ps"
  by (induction ps) simp_all

lemma set_status_titles: "map title (set_status pid st ps) = map title ps"
  by (induction ps) simp_all

lemma set_status_descriptions: "map description (set_status pid st ps) = map description ps"
  by (induction ps) simp_all

lemma set_status_people: "map people (set_status pid st ps) = map people ps"
  by (induction ps) simp_all

lemma status_update_same: "(p\<lparr>status := st\<rparr> = p) = (status p = st)"
  by (cases p) auto

lemma set_status_neq:
  "find (\<lambda>q. id' q = pid) ps = Some p \<Longrightarrow> status p \<noteq> st \<Longrightarrow> set_status pid st ps \<noteq> ps"
  by (induction ps) (auto simp: status_update_same split: if_splits)

lemma moveProject_projects:
  "projects (moveProject pid st s) = projects s \<or>
   projects (moveProject pid st s) = set_status pid st (projects s)"
  by (simp add: moveProject_def updateListeners_eq split: option.splits)

lemma set_status_index:
  "find (\<lambda>q. id' q = pid) ps = Some p \<Longrightarrow>
   \<exists>i<length ps. ps ! i = p \<and> (\<forall>j<i. id' (ps ! j) \<noteq> pid) \<and>
                  set_status pid st ps = ps[i := p\<lparr>status := st\<rparr>]"
proof (induction ps)
  case Nil
  then show ?case by simp
next
  case (Cons q ps)
  show ?case
  proof (cases "id' q = pid")
    case True
    with Cons.prems have qp: "q = p" by simp
    have "set_status pid st (q # ps) = q\<lparr>status := st\<rparr> # ps"
      using True by simp
    then have "set_status pid st (q # ps) = (q # ps)[0 := p\<lparr>status := st\<rparr>]"
      by (simp add: qp)
    then show ?thesis
      using qp by (intro exI[of _ 0]) simp
  next
    case False
    with Cons.prems have "find (\<lambda>q. id' q = pid) ps = Some p" by simp
    from Cons.IH[OF this] obtain i where i: "i < length ps" "ps ! i = p"
      "\<forall>j<i. id' (ps ! j) \<noteq> pid" "set_status pid st ps = ps[i := p\<lparr>status := st\<rparr>]"
      by blast
    have "\<forall>j<Suc i. id' ((q # ps) ! j) \<noteq> pid"
      using False i(3) by (auto simp: less_Suc_eq_0_disj)
    with False i show ?thesis by (intro exI[of _ "Suc i"]) simp
  qed
qed

lemma find_has_id: "find (\<lambda>q. id' q = pid) ps = Some p \<Longrightarrow> id' p = pid"
  by (induction ps) (auto split: if_splits)

text \<open>
  C3, amended. In a registry where the first project with id \<open>existingId\<close> (with pairwise
  distinct ids: the project with that id) has a status other than \<open>otherStatus\<close>,
  \<^verbatim>\<open>moveProject\<close> makes one round of notifications: every listener is called once more, in
  the order of registration, with the new sequence. In that sequence the first project with
  the id has status \<open>otherStatus\<close> and is otherwise as before, and every other project is as
  before.
\<close>

theorem moveProject_changes_status:
  assumes "find (\<lambda>q. id' q = existingId) (projects s) = Some p"
    and "status p \<noteq> otherStatus"
  shows "calls (moveProject existingId otherStatus s) =
           calls s @ map (\<lambda>fn. (fn, projects (moveProject existingId otherStatus s))) (listeners s)
       \<and> listeners (moveProject existingId otherStatus s) = listeners s
       \<and> id' p = existingId
       \<and> (\<exists>i<length (projects s).
             projects s ! i = p
           \<and> (\<forall>j<i. id' (projects s ! j) \<noteq> existingId)
           \<and> projects (moveProject existingId otherStatus s) =
               (projects s)[i := p\<lparr>status := otherStatus\<rparr>])
       \<and> (distinct (map id' (projects s)) \<longrightarrow>
             projects (moveProject existingId otherStatus s) =
               map (\<lambda>q. if id' q = existingId then q\<lparr>status := otherStatus\<rparr> else q) (projects s))"
proof -
  have m: "moveProject existingId otherStatus s =
      updateListeners (s\<lparr>projects := set_status existingId otherStatus (projects s)\<rparr>)"
    using assms by (simp add: moveProject_def)
  have p: "projects (moveProject existingId otherStatus s) =
      set_status existingId otherStatus (projects s)"
    by (simp add: m updateListeners_eq)
  have c: "calls (moveProject existingId otherStatus s) =
           calls s @ map (\<lambda>fn. (fn, projects (moveProject existingId otherStatus s))) (listeners s)"
    by (simp add: m updateListeners_eq)
  have l: "listeners (moveProject existingId otherStatus s) = listeners s"
    by (simp add: m updateListeners_eq)
  have i: "\<exists>i<length (projects s).
             projects s ! i = p
           \<and> (\<forall>j<i. id' (projects s ! j) \<noteq> existingId)
           \<and> projects (moveProject existingId otherStatus s) =
               (projects s)[i := p\<lparr>status := otherStatus\<rparr>]"
    using set_status_index[OF assms(1), of otherStatus] by (simp add: p)
  have d: "distinct (map id' (projects s)) \<longrightarrow>
             projects (moveProject existingId otherStatus s) =
               map (\<lambda>q. if id' q = existingId then q\<lparr>status := otherStatus\<rparr> else q) (projects s)"
    by (simp add: p set_status_map)
  show ?thesis
    using c l i d find_has_id[OF assms(1)] by blast
qed

theorem moveProject_changes_status_witness:
  "projects (moveProject ''0.7'' Finished S0) = [P1, P2\<lparr>status := Finished\<rparr>]
   \<and> calls (moveProject ''0.7'' Finished S0) =
       [(1, [P1, P2\<lparr>status := Finished\<rparr>]), (2, [P1, P2\<lparr>status := Finished\<rparr>])]"
proof -
  have h1: "find (\<lambda>q. id' q = ''0.7'') (projects S0) = Some P2" by simp
  have h2: "status P2 \<noteq> Finished" by simp
  have d: "distinct (map id' (projects S0))" by simp
  have c: "projects (moveProject ''0.7'' Finished S0) = [P1, P2\<lparr>status := Finished\<rparr>]"
    using moveProject_changes_status[OF h1 h2] d by simp
  show ?thesis
    using moveProject_changes_status[OF h1 h2] by (simp add: c)
qed

text \<open>
  The claim as it stands fails in a registry that holds two projects with one id, which two
  equal draws of \<^verbatim>\<open>Math.random\<close> produce: after the first has been moved to \<open>Finished\<close>, the
  registry holds a project with the id and status \<open>Active\<close>, and moving the id to \<open>Finished\<close>
  again changes nothing and calls no listener, because the lookup finds the first.
\<close>

theorem moveProject_duplicate_id_counterexample:
  "P3 \<in> set (projects SD) \<and> id' P3 = ''0.5'' \<and> status P3 \<noteq> Finished
   \<and> projects (moveProject ''0.5'' Finished SD) = projects SD
   \<and> calls (moveProject ''0.5'' Finished SD) = calls SD"
proof -
  have sd: "SD =
      \<lparr>listeners = [1],
       projects = [\<lparr>id' = ''0.5'', title = ''T'', description = ''a valid description'',
                    people = five, status = Finished\<rparr>, P3],
       calls = [(1, [\<lparr>id' = ''0.5'', title = ''T'', description = ''a valid description'',
                       people = five, status = Active\<rparr>]),
                (1, [\<lparr>id' = ''0.5'', title = ''T'', description = ''a valid description'',
                       people = five, status = Active\<rparr>, P3]),
                (1, [\<lparr>id' = ''0.5'', title = ''T'', description = ''a valid description'',
                       people = five, status = Finished\<rparr>, P3])]\<rparr>"
    by (simp add: moveProject_def updateListeners_eq addProject_eq project_of_def
        addListener_def getInstance_def)
  show ?thesis
    by (simp only: sd) (simp add: moveProject_def)
qed

text \<open>
  C4. \<^verbatim>\<open>moveProject\<close> returns the registry as it was, projects and calls alike, when no
  project has the id, and when the first project with the id already has the new status.
  In the remaining case, where the first project with the id has another status, the
  projects change and every listener is called once. So, with at least one listener
  registered, a listener is called if and only if neither of the two conditions holds.
\<close>

theorem moveProject_no_op:
  "(pid \<notin> id' ` set (projects s) \<longrightarrow> moveProject pid st s = s)
 \<and> (\<forall>p. find (\<lambda>q. id' q = pid) (projects s) = Some p \<and> status p = st \<longrightarrow>
        moveProject pid st s = s)
 \<and> (\<forall>p. find (\<lambda>q. id' q = pid) (projects s) = Some p \<and> status p \<noteq> st \<longrightarrow>
        projects (moveProject pid st s) \<noteq> projects s
      \<and> calls (moveProject pid st s) =
          calls s @ map (\<lambda>fn. (fn, projects (moveProject pid st s))) (listeners s))
 \<and> (listeners s \<noteq> [] \<longrightarrow>
      (calls (moveProject pid st s) \<noteq> calls s) =
      (\<exists>p. find (\<lambda>q. id' q = pid) (projects s) = Some p \<and> status p \<noteq> st))"
proof -
  have a: "pid \<notin> id' ` set (projects s) \<Longrightarrow> find (\<lambda>q. id' q = pid) (projects s) = None"
    by (auto simp: find_None_iff)
  show ?thesis
    by (auto simp: a moveProject_def updateListeners_eq set_status_neq split: option.splits)
qed

theorem moveProject_no_op_witness:
  "moveProject ''nonexistent-id'' Finished S0 = S0
   \<and> moveProject ''0.7'' Active S0 = S0
   \<and> calls (moveProject ''0.7'' Finished S0) \<noteq> calls S0"
proof -
  have h1: "''nonexistent-id'' \<notin> id' ` set (projects S0)" by simp
  have h2: "find (\<lambda>q. id' q = ''0.7'') (projects S0) = Some P2 \<and> status P2 = Active" by simp
  have h3: "find (\<lambda>q. id' q = ''0.7'') (projects S0) = Some P2 \<and> status P2 \<noteq> Finished" by simp
  have h4: "listeners S0 \<noteq> []" by simp
  have a: "moveProject ''nonexistent-id'' Finished S0 = S0"
    using moveProject_no_op[of "''nonexistent-id''" S0 Finished] h1 by blast
  have b: "moveProject ''0.7'' Active S0 = S0"
    using moveProject_no_op[of "''0.7''" S0 Active] h2 by blast
  have c: "calls (moveProject ''0.7'' Finished S0) \<noteq> calls S0"
    using moveProject_no_op[of "''0.7''" S0 Finished] h3 h4 by blast
  show ?thesis using a b c by blast
qed

text \<open>
  C9. \<^verbatim>\<open>moveProject\<close> keeps the number and the order of the projects, and the id, title,
  description and people of each of them, the moved one included; it also keeps the
  listeners. Only a status can differ afterwards.
\<close>

theorem moveProject_frame:
  "length (projects (moveProject pid st s)) = length (projects s)
   \<and> map id' (projects (moveProject pid st s)) = map id' (projects s)
   \<and> map title (projects (moveProject pid st s)) = map title (projects s)
   \<and> map description (projects (moveProject pid st s)) = map description (projects s)
   \<and> map people (projects (moveProject pid st s)) = map people (projects s)
   \<and> listeners (moveProject pid st s) = listeners s"
  using moveProject_projects[of pid st s]
  by (auto simp: set_status_length set_status_ids set_status_titles set_status_descriptions
      set_status_people moveProject_def updateListeners_eq split: option.splits)


section \<open>Field validation: what it accepts\<close>

lemma dropWhile_keeps: "x \<in> set xs \<Longrightarrow> \<not> P x \<Longrightarrow> x \<in> set (dropWhile P xs)"
  by (induction xs) auto

lemma trim_keeps: "c \<in> set s \<Longrightarrow> \<not> isWhiteSpace c \<Longrightarrow> c \<in> set (trim s)"
  unfolding trim_def by (simp add: dropWhile_keeps)

lemma trim_nonempty: "c \<in> set s \<Longrightarrow> \<not> isWhiteSpace c \<Longrightarrow> trim s \<noteq> []"
  using trim_keeps by fastforce

lemma digit_char_not_space: "k < 10 \<Longrightarrow> \<not> isWhiteSpace (''0123456789'' ! k)"
proof -
  assume k: "k < 10"
  have all: "\<forall>c\<in>set ''0123456789''. \<not> isWhiteSpace c"
    by (simp add: isWhiteSpace_def)
  have "''0123456789'' ! k \<in> set ''0123456789''"
    using k by (intro nth_mem) simp
  with all show ?thesis by blast
qed

lemma digits_nonempty: "digits m \<noteq> []"
  by (subst digits.simps) simp

lemma digits_not_space: "c \<in> set (digits m) \<Longrightarrow> \<not> isWhiteSpace c"
proof (induction m rule: digits.induct)
  case (1 m)
  show ?case
  proof (cases "m < 10")
    case True
    with "1.prems" have "c = ''0123456789'' ! m" by (subst (asm) digits.simps) simp
    with True show ?thesis by (simp add: digit_char_not_space)
  next
    case False
    with "1.prems" have "c \<in> set (digits (m div 10)) \<or> c = ''0123456789'' ! (m mod 10)"
      by (subst (asm) digits.simps) auto
    with False "1.IH" show ?thesis by (auto simp: digit_char_not_space)
  qed
qed

lemma hd_digits_visible: "hd (digits m) \<in> set (digits m) \<and> \<not> isWhiteSpace (hd (digits m))"
  using digits_nonempty digits_not_space by (metis hd_in_set)

lemma punctuation_not_space:
  "\<not> isWhiteSpace (CHR ''.'')" "\<not> isWhiteSpace (CHR ''0'')" "\<not> isWhiteSpace (CHR ''-'')"
  "\<not> isWhiteSpace (CHR ''N'')" "\<not> isWhiteSpace (CHR ''I'')"
  by (simp_all add: isWhiteSpace_def)

lemma positive_toString_visible: "\<exists>c\<in>set (positive_toString s n). \<not> isWhiteSpace c"
proof -
  let ?h = "hd (digits s)"
  have h: "?h \<in> set (digits s)" "\<not> isWhiteSpace ?h" using hd_digits_visible by auto
  show ?thesis
    unfolding positive_toString_def Let_def
    using h punctuation_not_space(1,2)
    by (auto intro: bexI[where x="?h"] bexI[where x="CHR ''.''"] bexI[where x="CHR ''0''"])
qed

lemma number_toString_visible: "\<exists>c\<in>set (number_toString x). \<not> isWhiteSpace c"
proof (cases x)
  case NaN
  then show ?thesis using punctuation_not_space(4) by auto
next
  case PosInfinity
  then show ?thesis using punctuation_not_space(5) by auto
next
  case NegInfinity
  then show ?thesis using punctuation_not_space(3) by auto
next
  case Zero
  then show ?thesis using punctuation_not_space(2) by auto
next
  case (Dec neg s n)
  then show ?thesis using positive_toString_visible[of s n] by auto
qed

lemma required_number: "length (trim (toString (Num x))) \<noteq> 0"
  using number_toString_visible[of x] trim_nonempty by auto

lemma number_le_examples:
  "number_le five (Dec False 1 2)"
  "\<not> number_le (Dec False 11 2) (Dec False 1 2)"
  "number_le (Dec False 15 1) (Dec False 2 1)"
  "number_le (Dec True 5 0) Zero"
  "\<not> number_le NaN NaN"
  "number_le (Dec False 1 2) PosInfinity"
  by (simp_all add: digits.simps)

lemma number_toString_examples:
  "number_toString (Dec False 11 2) = ''11''"
  "number_toString (Dec False 15 1) = ''1.5''"
  "number_toString (Dec True 5 0) = ''-0.5''"
  "number_toString (Dec False 12 22) = ''1.2e+21''"
  "number_toString (Dec False 1 (- 6)) = ''1e-7''"
  by (simp_all add: positive_toString_def digits.simps exponent_part_def)

text \<open>
  C6. \<^verbatim>\<open>validate\<close> returns true if and only if every constraint of the descriptor passes:
  with \<^verbatim>\<open>required\<close> set, the string representation of the value, trimmed, is not empty; with
  \<^verbatim>\<open>minLength\<close> or \<^verbatim>\<open>maxLength\<close> present and a string value, the length of the string as it
  is (not trimmed) is within the bound; with \<^verbatim>\<open>min\<close> or \<^verbatim>\<open>max\<close> present and a numeric value,
  the value is within the bound, the bound included. A constraint that is absent, or whose
  kind of value is the other one, is not checked. The four examples of the specification
  evaluate as it says.
\<close>

theorem validate_iff:
  "validate v =
     ((required v = Some True \<longrightarrow> length (trim (toString (value' v))) \<noteq> 0)
    \<and> (\<forall>m s. minLength v = Some m \<and> value' v = Str s \<longrightarrow>
          number_le m (number_of_nat (length s)))
    \<and> (\<forall>m s. maxLength v = Some m \<and> value' v = Str s \<longrightarrow>
          number_le (number_of_nat (length s)) m)
    \<and> (\<forall>m x. min' v = Some m \<and> value' v = Num x \<longrightarrow> number_le m x)
    \<and> (\<forall>m x. max' v = Some m \<and> value' v = Num x \<longrightarrow> number_le x m))
 \<and> \<not> validate \<lparr>value' = Str '''', required = Some True, minLength = None, maxLength = None,
                 min' = None, max' = None\<rparr>
 \<and> \<not> validate \<lparr>value' = Str ''ab'', required = None, minLength = Some five, maxLength = None,
                 min' = None, max' = None\<rparr>
 \<and> \<not> validate \<lparr>value' = Num (Dec False 11 2), required = None, minLength = None,
                 maxLength = None, min' = Some (Dec False 1 1), max' = Some (Dec False 1 2)\<rparr>
 \<and> validate \<lparr>value' = Str ''ok'', required = Some True, minLength = None, maxLength = None,
               min' = None, max' = None\<rparr>"
proof -
  have general: "validate v =
     ((required v = Some True \<longrightarrow> length (trim (toString (value' v))) \<noteq> 0)
    \<and> (\<forall>m s. minLength v = Some m \<and> value' v = Str s \<longrightarrow>
          number_le m (number_of_nat (length s)))
    \<and> (\<forall>m s. maxLength v = Some m \<and> value' v = Str s \<longrightarrow>
          number_le (number_of_nat (length s)) m)
    \<and> (\<forall>m x. min' v = Some m \<and> value' v = Num x \<longrightarrow> number_le m x)
    \<and> (\<forall>m x. max' v = Some m \<and> value' v = Num x \<longrightarrow> number_le x m))"
    unfolding validate_def Let_def
    by (cases "value' v"; cases "minLength v"; cases "maxLength v"; cases "min' v";
        cases "max' v") auto
  have e1: "\<not> validate \<lparr>value' = Str '''', required = Some True, minLength = None,
                 maxLength = None, min' = None, max' = None\<rparr>"
    by (simp add: validate_def trim_def)
  have e2: "\<not> validate \<lparr>value' = Str ''ab'', required = None, minLength = Some five,
                 maxLength = None, min' = None, max' = None\<rparr>"
    by (simp add: validate_def number_of_nat_def digits.simps)
  have e3: "\<not> validate \<lparr>value' = Num (Dec False 11 2), required = None, minLength = None,
                 maxLength = None, min' = Some (Dec False 1 1), max' = Some (Dec False 1 2)\<rparr>"
    by (simp add: validate_def digits.simps)
  have e4: "validate \<lparr>value' = Str ''ok'', required = Some True, minLength = None,
               maxLength = None, min' = None, max' = None\<rparr>"
    by (simp add: validate_def trim_def isWhiteSpace_def)
  show ?thesis using general e1 e2 e3 e4 by blast
qed

theorem validate_iff_witness:
  "validate \<lparr>value' = Str ''hello'', required = Some True, minLength = Some five,
             maxLength = Some five, min' = None, max' = None\<rparr>
 \<and> validate \<lparr>value' = Num five, required = Some True, minLength = None, maxLength = None,
             min' = Some (Dec False 1 1), max' = Some (Dec False 1 2)\<rparr>
 \<and> \<not> validate \<lparr>value' = Str ''  '', required = Some True, minLength = None,
             maxLength = Some five, min' = None, max' = None\<rparr>"
  using validate_iff[of "\<lparr>value' = Str ''hello'', required = Some True, minLength = Some five,
             maxLength = Some five, min' = None, max' = None\<rparr>"]
    validate_iff[of "\<lparr>value' = Num five, required = Some True, minLength = None,
             maxLength = None, min' = Some (Dec False 1 1), max' = Some (Dec False 1 2)\<rparr>"]
    validate_iff[of "\<lparr>value' = Str ''  '', required = Some True, minLength = None,
             maxLength = Some five, min' = None, max' = None\<rparr>"]
  by (simp add: trim_def isWhiteSpace_def number_of_nat_def digits.simps positive_toString_def)

text \<open>
  C10. The string representation of a Number, trimmed, is never empty, so a numeric value
  always passes \<^verbatim>\<open>required\<close>; for a numeric value the result of \<^verbatim>\<open>validate\<close> depends on
  \<^verbatim>\<open>min\<close> and \<^verbatim>\<open>max\<close> alone.
\<close>

theorem required_never_rejects_a_number:
  "length (trim (toString (Num x))) \<noteq> 0
 \<and> validate \<lparr>value' = Num x, required = Some True, minLength = ml, maxLength = xl,
              min' = None, max' = None\<rparr>
 \<and> validate (v\<lparr>value' := Num x\<rparr>) =
     ((case min' v of None \<Rightarrow> True | Some m \<Rightarrow> number_le m x) \<and>
      (case max' v of None \<Rightarrow> True | Some m \<Rightarrow> number_le x m))"
  using required_number[of x]
  by (auto simp: validate_def Let_def split: option.splits)

lemma required_number_examples:
  "validate \<lparr>value' = Num NaN, required = Some True, minLength = None, maxLength = None,
             min' = None, max' = None\<rparr>"
  "validate \<lparr>value' = Num Zero, required = Some True, minLength = None, maxLength = None,
             min' = None, max' = None\<rparr>"
  "\<not> validate \<lparr>value' = Num NaN, required = Some True, minLength = None, maxLength = None,
             min' = Some (Dec False 1 1), max' = Some (Dec False 1 2)\<rparr>"
  by (simp_all add: validate_def trim_def isWhiteSpace_def)


section \<open>The drag handlers\<close>

text \<open>
  C7. \<^verbatim>\<open>dragOverHandler\<close> accepts the drop, that is prevents the default action of the event
  and puts the marker \<^verbatim>\<open>droppable\<close> on the list, if and only if the declared type of the
  payload is \<^verbatim>\<open>text/plain\<close>; with any other declared type, or none, it leaves the event and
  the view as they are.
\<close>

theorem dragOverHandler_accepts_plain_text:
  "dragOverHandler event this =
     (if declared_type event = Some ''text/plain''
      then (event\<lparr>defaultPrevented := True\<rparr>,
            this\<lparr>ul_classList := classList_add ''droppable'' (ul_classList this)\<rparr>)
      else (event, this))
   \<and> (declared_type event = Some ''text/plain'' \<longrightarrow>
        defaultPrevented (fst (dragOverHandler event this))
      \<and> ''droppable'' \<in> set (ul_classList (snd (dragOverHandler event this))))"
  by (auto simp: dragOverHandler_def declared_type_def classList_add_def
      split: option.splits list.splits)

theorem dragOverHandler_accepts_plain_text_witness:
  "dragOverHandler E_text L_finished =
     (E_text\<lparr>defaultPrevented := True\<rparr>, L_finished\<lparr>ul_classList := [''droppable'']\<rparr>)
 \<and> dragOverHandler E_files L_finished = (E_files, L_finished)
 \<and> dragOverHandler E_none L_finished = (E_none, L_finished)"
  using dragOverHandler_accepts_plain_text[of E_text L_finished]
    dragOverHandler_accepts_plain_text[of E_files L_finished]
    dragOverHandler_accepts_plain_text[of E_none L_finished]
  by (simp add: declared_type_def classList_add_def)

text \<open>
  C8, amended. When the event has a transfer channel, \<^verbatim>\<open>dragStartHandler\<close> returns normally;
  afterwards the data stored for \<^verbatim>\<open>text/plain\<close> is the id of the dragged project,
  \<^verbatim>\<open>text/plain\<close> is among the declared types, the allowed effect is \<^verbatim>\<open>move\<close>, and the data
  stored for every other type is as before.
\<close>

theorem dragStartHandler_with_channel:
  assumes "dataTransfer event = Some dt"
  shows "\<exists>dt'. dragStartHandler project event = Inr (event\<lparr>dataTransfer := Some dt'\<rparr>)
             \<and> getData ''text/plain'' dt' = id' project
             \<and> ''text/plain'' \<in> set (types dt')
             \<and> effectAllowed dt' = ''move''
             \<and> (\<forall>format. format \<noteq> ''text/plain'' \<longrightarrow> data dt' format = data dt format)"
proof -
  let ?dt' = "(setData ''text/plain'' (id' project) dt)\<lparr>effectAllowed := ''move''\<rparr>"
  have "dragStartHandler project event = Inr (event\<lparr>dataTransfer := Some ?dt'\<rparr>)"
    using assms by (simp add: dragStartHandler_def)
  moreover have "getData ''text/plain'' ?dt' = id' project"
    by (simp add: setData_def getData_def)
  moreover have "''text/plain'' \<in> set (types ?dt')"
    by (simp add: setData_def)
  moreover have "effectAllowed ?dt' = ''move''"
    by simp
  moreover have "\<forall>format. format \<noteq> ''text/plain'' \<longrightarrow> data ?dt' format = data dt format"
    by (simp add: setData_def)
  ultimately show ?thesis by blast
qed

theorem dragStartHandler_with_channel_witness:
  "\<exists>dt'. dragStartHandler P1 E_start = Inr (E_start\<lparr>dataTransfer := Some dt'\<rparr>)
        \<and> getData ''text/plain'' dt' = ''0.1''
        \<and> effectAllowed dt' = ''move''"
proof -
  have h: "dataTransfer E_start =
             Some \<lparr>types = [], data = Map.empty, effectAllowed = ''uninitialized''\<rparr>"
    by simp
  show ?thesis
    using dragStartHandler_with_channel[OF h, of P1] by auto
qed

text \<open>
  The claim as it stands fails on an event without a transfer channel: the handler does
  not return, the access to the channel throws.
\<close>

theorem dragStartHandler_without_channel:
  "dragStartHandler P1 E_none = Inl TypeError"
  by (simp add: dragStartHandler_def)


section \<open>The arrays handed to the listeners are copies\<close>

lemma notify_store_Cons:
  "notify_store mut wr (fn # rest) h = notify_store mut wr rest (hand_over mut wr fn h)"
  by (simp add: hand_over_def split: prod.splits)

lemma hand_over_fields:
  "next_ref (hand_over mut wr fn h) = Suc (next_ref h)"
  "objects (hand_over mut wr fn h) = wr fn (arrays h (projects_ref h)) (objects h)"
  "projects_ref (hand_over mut wr fn h) = projects_ref h"
  "listeners_of (hand_over mut wr fn h) = listeners_of h"
  "received (hand_over mut wr fn h) =
     received h @ [(fn, next_ref h, arrays h (projects_ref h),
                    map (objects h) (arrays h (projects_ref h)))]"
  "arrays (hand_over mut wr fn h) = (arrays h)(next_ref h := mut fn (arrays h (projects_ref h)))"
  by (simp_all add: hand_over_def slice_def call_listener_def)

lemma hand_over_registry:
  "projects_ref h < next_ref h \<Longrightarrow>
   projects_ref (hand_over mut wr fn h) < next_ref (hand_over mut wr fn h) \<and>
   arrays (hand_over mut wr fn h) (projects_ref (hand_over mut wr fn h)) =
     arrays h (projects_ref h)"
  by (simp add: hand_over_fields)

lemma notify_store_frame:
  "next_ref (notify_store mut wr fns h) = next_ref h + length fns
 \<and> projects_ref (notify_store mut wr fns h) = projects_ref h
 \<and> listeners_of (notify_store mut wr fns h) = listeners_of h"
proof (induction fns arbitrary: h)
  case Nil
  show ?case by simp
next
  case (Cons fn rest)
  show ?case
    by (simp only: notify_store_Cons Cons.IH hand_over_fields) simp
qed

lemma notify_store_old:
  "a < next_ref h \<Longrightarrow> arrays (notify_store mut wr fns h) a = arrays h a"
proof (induction fns arbitrary: h)
  case Nil
  show ?case by simp
next
  case (Cons fn rest)
  have "a < next_ref (hand_over mut wr fn h)" using Cons.prems by (simp add: hand_over_fields)
  then have "arrays (notify_store mut wr rest (hand_over mut wr fn h)) a =
             arrays (hand_over mut wr fn h) a"
    by (rule Cons.IH)
  also have "\<dots> = arrays h a" using Cons.prems by (simp add: hand_over_fields)
  finally show ?case by (simp only: notify_store_Cons)
qed

lemma notify_store_objects:
  "projects_ref h < next_ref h \<Longrightarrow>
   objects (notify_store mut wr fns h) =
     fold (\<lambda>fn. wr fn (arrays h (projects_ref h))) fns (objects h)"
proof (induction fns arbitrary: h)
  case Nil
  show ?case by simp
next
  case (Cons fn rest)
  let ?h1 = "hand_over mut wr fn h"
  note r = hand_over_registry[OF Cons.prems, of mut wr fn]
  have "objects (notify_store mut wr rest ?h1) =
        fold (\<lambda>fn. wr fn (arrays ?h1 (projects_ref ?h1))) rest (objects ?h1)"
    using r by (intro Cons.IH) simp
  then show ?case
    using r by (simp only: notify_store_Cons) (simp add: hand_over_fields(2))
qed

lemma notify_store_received:
  "projects_ref h < next_ref h \<Longrightarrow>
   received (notify_store mut wr fns h) =
     received h @
     map (\<lambda>i. (fns ! i, next_ref h + i, arrays h (projects_ref h),
               map (fold (\<lambda>fn. wr fn (arrays h (projects_ref h))) (take i fns) (objects h))
                   (arrays h (projects_ref h))))
         [0..<length fns]"
proof (induction fns arbitrary: h)
  case Nil
  show ?case by simp
next
  case (Cons fn rest)
  let ?h1 = "hand_over mut wr fn h"
  let ?xs = "arrays h (projects_ref h)"
  note r = hand_over_registry[OF Cons.prems, of mut wr fn]
  have ih: "received (notify_store mut wr rest ?h1) =
     received ?h1 @
     map (\<lambda>i. (rest ! i, next_ref ?h1 + i, ?xs,
               map (fold (\<lambda>fn. wr fn ?xs) (take i rest) (objects ?h1)) ?xs))
         [0..<length rest]"
    using Cons.IH[of ?h1] r by simp
  have upt: "[0..<length (fn # rest)] = 0 # map Suc [0..<length rest]"
    by (simp add: upt_conv_Cons map_Suc_upt del: upt_Suc)
  show ?case
    by (simp only: notify_store_Cons ih upt)
       (simp add: hand_over_fields o_def)
qed

lemma notify_store_own:
  "projects_ref h < next_ref h \<Longrightarrow> i < length fns \<Longrightarrow>
   arrays (notify_store mut wr fns h) (next_ref h + i) = mut (fns ! i) (arrays h (projects_ref h))"
proof (induction fns arbitrary: h i)
  case Nil
  then show ?case by simp
next
  case (Cons fn rest)
  let ?h1 = "hand_over mut wr fn h"
  note r = hand_over_registry[OF Cons.prems(1), of mut wr fn]
  show ?case
  proof (cases i)
    case 0
    have "arrays (notify_store mut wr rest ?h1) (next_ref h) = arrays ?h1 (next_ref h)"
      by (rule notify_store_old) (simp add: hand_over_fields)
    then show ?thesis using 0
      by (simp del: notify_store.simps add: notify_store_Cons hand_over_fields)
  next
    case (Suc j)
    then have j: "j < length rest" using Cons.prems by simp
    have "arrays (notify_store mut wr rest ?h1) (next_ref ?h1 + j) =
          mut (rest ! j) (arrays ?h1 (projects_ref ?h1))"
      using r j by (intro Cons.IH) simp_all
    then have "arrays (notify_store mut wr rest ?h1) (Suc (next_ref h) + j) =
          mut (rest ! j) (arrays h (projects_ref h))"
      using r by (simp add: hand_over_fields(1))
    then show ?thesis using Suc
      by (simp del: notify_store.simps add: notify_store_Cons)
  qed
qed

lemma fold_keep: "(\<And>x a. f x a = a) \<Longrightarrow> fold f xs a = a"
  by (induction xs arbitrary: a) simp_all

text \<open>
  C5, amended. In a round of notifications every listener is handed an array of its own:
  the arrays are at new addresses, one after the other, none of them the address of the
  registry's array or of an array handed out before, and each holds the elements of the
  registry's array when it is handed over. Whatever the listeners do to their arrays, the
  registry's array and every array that existed before are afterwards as they were, and the
  array of each listener holds what that listener alone made of it. The elements are
  references to the registry's own \<^verbatim>\<open>Project\<close> objects: what a listener writes to a project
  stays written, and the listeners called after it see it. When no listener writes to a
  project, the objects too are as they were, and every listener saw the same projects.
\<close>

theorem snapshots_are_independent_copies:
  assumes "projects_ref h < next_ref h"
  shows "received (updateListeners_store mut wr h) =
           received h @
           map (\<lambda>i. (listeners_of h ! i, next_ref h + i, arrays h (projects_ref h),
                     map (fold (\<lambda>fn. wr fn (arrays h (projects_ref h)))
                               (take i (listeners_of h)) (objects h))
                         (arrays h (projects_ref h))))
               [0..<length (listeners_of h)]
       \<and> arrays (updateListeners_store mut wr h) (projects_ref h) = arrays h (projects_ref h)
       \<and> (\<forall>a<next_ref h. arrays (updateListeners_store mut wr h) a = arrays h a)
       \<and> (\<forall>i<length (listeners_of h).
            arrays (updateListeners_store mut wr h) (next_ref h + i) =
              mut (listeners_of h ! i) (arrays h (projects_ref h)))
       \<and> objects (updateListeners_store mut wr h) =
           fold (\<lambda>fn. wr fn (arrays h (projects_ref h))) (listeners_of h) (objects h)
       \<and> ((\<forall>fn os. wr fn (arrays h (projects_ref h)) os = os) \<longrightarrow>
            objects (updateListeners_store mut wr h) = objects h
          \<and> received (updateListeners_store mut wr h) =
              received h @
              map (\<lambda>i. (listeners_of h ! i, next_ref h + i, arrays h (projects_ref h),
                        map (objects h) (arrays h (projects_ref h))))
                  [0..<length (listeners_of h)])"
proof -
  let ?xs = "arrays h (projects_ref h)"
  have keep: "\<forall>fn os. wr fn ?xs os = os \<Longrightarrow> fold (\<lambda>fn. wr fn ?xs) fns (objects h) = objects h"
    for fns by (rule fold_keep) simp
  show ?thesis
    using assms keep
    by (simp add: updateListeners_store_def notify_store_received notify_store_old
        notify_store_own notify_store_objects)
qed

theorem snapshots_are_independent_copies_witness:
  "received (updateListeners_store (\<lambda>fn xs. drop fn xs) keep_objects H0) =
     [(1, 3, [1, 2], [Some P1, Some P2]), (2, 4, [1, 2], [Some P1, Some P2])]
 \<and> arrays (updateListeners_store (\<lambda>fn xs. drop fn xs) keep_objects H0) 0 = [1, 2]
 \<and> arrays (updateListeners_store (\<lambda>fn xs. drop fn xs) keep_objects H0) 3 = [2]
 \<and> arrays (updateListeners_store (\<lambda>fn xs. drop fn xs) keep_objects H0) 4 = []
 \<and> objects (updateListeners_store (\<lambda>fn xs. drop fn xs) keep_objects H0) = objects H0"
proof -
  have h: "projects_ref H0 < next_ref H0" by simp
  note t = snapshots_are_independent_copies[OF h, of "\<lambda>fn xs. drop fn xs" keep_objects]
  have k: "\<forall>fn os. keep_objects fn (arrays H0 (projects_ref H0)) os = os"
    by (simp add: keep_objects_def)
  have u: "[0..<2] = [0, 1::nat]" by (simp add: upt_rec)
  have o: "objects (updateListeners_store (\<lambda>fn xs. drop fn xs) keep_objects H0) = objects H0"
    using t k by blast
  have "received (updateListeners_store (\<lambda>fn xs. drop fn xs) keep_objects H0) =
          received H0 @
          map (\<lambda>i. (listeners_of H0 ! i, next_ref H0 + i, arrays H0 (projects_ref H0),
                    map (objects H0) (arrays H0 (projects_ref H0))))
              [0..<length (listeners_of H0)]"
    using t k by blast
  then have r: "received (updateListeners_store (\<lambda>fn xs. drop fn xs) keep_objects H0) =
     [(1, 3, [1, 2], [Some P1, Some P2]), (2, 4, [1, 2], [Some P1, Some P2])]"
    using u by simp
  have a0: "arrays (updateListeners_store (\<lambda>fn xs. drop fn xs) keep_objects H0) 0 = [1, 2]"
    using t by simp
  have q: "\<And>i. i < 2 \<Longrightarrow>
      arrays (updateListeners_store (\<lambda>fn xs. drop fn xs) keep_objects H0) (3 + i) =
        drop ([1, 2] ! i) [1, 2::nat]"
    using t by simp
  have a3: "arrays (updateListeners_store (\<lambda>fn xs. drop fn xs) keep_objects H0) 3 = [2]"
    using q[of 0] by simp
  have a4: "arrays (updateListeners_store (\<lambda>fn xs. drop fn xs) keep_objects H0) 4 = []"
    using q[of 1] by simp
  show ?thesis using r a0 a3 a4 o by blast
qed

text \<open>
  The claim as it stands fails for listeners that write to a project of the array they are
  handed: the first listener called sets the status of the first project, the project of
  the registry has the new status afterwards, and the second listener is handed it so.
\<close>

theorem snapshots_share_projects_counterexample:
  "objects H0 1 = Some P1
 \<and> objects (updateListeners_store keep_array finish_first H0) 1 = Some (P1\<lparr>status := Finished\<rparr>)
 \<and> received (updateListeners_store keep_array finish_first H0) =
     [(1, 3, [1, 2], [Some P1, Some P2]),
      (2, 4, [1, 2], [Some (P1\<lparr>status := Finished\<rparr>), Some P2])]"
  by (simp add: updateListeners_store_def slice_def call_listener_def finish_first_def
      keep_array_def)

end
